theory Spec2Isabelle
  imports Main "HOL-Library.Word"
begin

section \<open>The ledger's value types\<close>

text \<open>
  The two contracts, \<^verbatim>\<open>PublisherRegistry\<close> and \<^verbatim>\<open>NewsRegistry\<close>, are written in
  Solidity 0.8: an \<^verbatim>\<open>address\<close> is 160 bits wide, \<^verbatim>\<open>bytes32\<close> and \<^verbatim>\<open>uint256\<close>
  are 256 bits wide, and \<^verbatim>\<open>+\<close> on \<^verbatim>\<open>uint256\<close> is checked: on overflow the call
  reverts with a panic instead of wrapping around.
\<close>

type_synonym address = "160 word"
type_synonym bytes32 = "256 word"
type_synonym uint256 = "256 word"

text \<open>
  A call that reverts undoes every write it made and hands the caller the reason.
  \<^verbatim>\<open>require(c, "reason")\<close> reverts with its string, checked arithmetic with a panic,
  the \<^verbatim>\<open>onlyOwner\<close> modifier with the authorisation failure.
\<close>

datatype error = Unauthorized | InvalidOwner | Revert string | Panic

abbreviation AlreadyTrusted :: error where
  "AlreadyTrusted \<equiv> Revert ''Already trusted''"

abbreviation NotTrusted :: error where
  "NotTrusted \<equiv> Revert ''Not trusted''"

abbreviation DuplicateSubmission :: error where
  "DuplicateSubmission \<equiv> Revert ''Already submitted''"

abbreviation NotFound :: error where
  "NotFound \<equiv> Revert ''Not submitted''"

abbreviation AlreadyFinalized :: error where
  "AlreadyFinalized \<equiv> Revert ''Already finalized''"

abbreviation DuplicateVote :: error where
  "DuplicateVote \<equiv> Revert ''Already voted''"

text \<open>What a call sees of its transaction: \<^verbatim>\<open>msg.sender\<close> and \<^verbatim>\<open>block.timestamp\<close>.\<close>

record env =
  msg_sender :: address
  block_timestamp :: uint256

definition checked_add :: "uint256 \<Rightarrow> uint256 \<Rightarrow> error + uint256" where
  "checked_add a b = (if unat a + unat b < 2 ^ 256 then Inr (a + b) else Inl Panic)"

definition and_then :: "error + 'a \<Rightarrow> ('a \<Rightarrow> error + 'b) \<Rightarrow> error + 'b" where
  "and_then r f = (case r of Inl x \<Rightarrow> Inl x | Inr v \<Rightarrow> f v)"

section \<open>Ownable\<close>

text \<open>
  Both contracts inherit from OpenZeppelin's \<^verbatim>\<open>Ownable\<close>, which is imported and not
  part of the sources at hand.
\<close>

record Ownable =
  owner :: address

text \<open>
  Modelled from the spec: the \<^verbatim>\<open>onlyOwner\<close> modifier of the imported \<^verbatim>\<open>Ownable\<close>
  base contract. The caller must hold the owner capability, a stored identity compared
  against the caller's identity at the top of each mutating operation; the call fails
  with \<open>Unauthorized\<close> otherwise.
\<close>

definition onlyOwner :: "env \<Rightarrow> 'a Ownable_scheme \<Rightarrow> bool" where
  "onlyOwner e c = (owner c = msg_sender e)"

text \<open>
  Modelled from the spec: the ownership transfer of the imported \<^verbatim>\<open>Ownable\<close> base
  contract. The owner capability is transferable only by the current holder, and a
  transfer never unsets it to the null address.
\<close>

definition transferOwnership ::
  "env \<Rightarrow> address \<Rightarrow> 'a Ownable_scheme \<Rightarrow> error + 'a Ownable_scheme" where
  "transferOwnership e newOwner c =
     (if \<not> onlyOwner e c then Inl Unauthorized
      else if newOwner = 0 then Inl InvalidOwner
      else Inr (c\<lparr>owner := newOwner\<rparr>))"

text \<open>
  Modelled from the spec: the renouncing transfer of the imported \<^verbatim>\<open>Ownable\<close> base
  contract, the one explicit way for the current holder to unset the owner capability.
\<close>

definition renounceOwnership ::
  "env \<Rightarrow> 'a Ownable_scheme \<Rightarrow> error + 'a Ownable_scheme" where
  "renounceOwnership e c =
     (if \<not> onlyOwner e c then Inl Unauthorized else Inr (c\<lparr>owner := 0\<rparr>))"

section \<open>Notifications\<close>

datatype Status = UnderReview | VerifiedTrue | MarkedFake | Disputed

datatype event =
    PublisherAdded address
  | PublisherRemoved address
  | Submitted bytes32 address string
  | PublisherAutoVerified bytes32
  | Voted bytes32 address bool
  | Finalized bytes32 Status

section \<open>PublisherRegistry\<close>

record PublisherRegistry = Ownable +
  isTrusted :: "address \<Rightarrow> bool"

definition PublisherRegistry_constructor :: "env \<Rightarrow> PublisherRegistry" where
  "PublisherRegistry_constructor e = \<lparr>owner = msg_sender e, isTrusted = (\<lambda>_. False)\<rparr>"

definition addPublisher ::
  "env \<Rightarrow> address \<Rightarrow> PublisherRegistry \<Rightarrow> error + (event list \<times> PublisherRegistry)" where
  "addPublisher e p c =
     (if \<not> onlyOwner e c then Inl Unauthorized
      else if isTrusted c p then Inl (Revert ''Already trusted'')
      else Inr ([PublisherAdded p], c\<lparr>isTrusted := (isTrusted c)(p := True)\<rparr>))"

definition removePublisher ::
  "env \<Rightarrow> address \<Rightarrow> PublisherRegistry \<Rightarrow> error + (event list \<times> PublisherRegistry)" where
  "removePublisher e p c =
     (if \<not> onlyOwner e c then Inl Unauthorized
      else if \<not> isTrusted c p then Inl (Revert ''Not trusted'')
      else Inr ([PublisherRemoved p], c\<lparr>isTrusted := (isTrusted c)(p := False)\<rparr>))"

definition trustStatus :: "address \<Rightarrow> PublisherRegistry \<Rightarrow> bool" where
  "trustStatus p c = isTrusted c p"

section \<open>NewsRegistry\<close>

record Article =
  contentHash :: bytes32
  uri :: string
  publisher :: address
  submitter :: address
  createdAt :: uint256
  status :: Status
  yesVotes :: uint256
  noVotes :: uint256
  finalized :: bool

text \<open>
  A Solidity mapping has a value at every key; a key never written holds the zero value
  of the value type. For \<^verbatim>\<open>Article\<close> that is the record below, whose status is the
  first member of the enumeration.
\<close>

definition zero_Article :: Article where
  "zero_Article = \<lparr>contentHash = 0, uri = [], publisher = 0, submitter = 0, createdAt = 0,
     status = UnderReview, yesVotes = 0, noVotes = 0, finalized = False\<rparr>"

record NewsRegistry = Ownable +
  votingPeriod :: uint256
  minVotes :: uint256
  articles :: "bytes32 \<Rightarrow> Article"
  hasVoted :: "bytes32 \<Rightarrow> address \<Rightarrow> bool"

text \<open>
  The constructor also stores the address of the publisher registry. The model keeps the
  two contract instances side by side in one world (see \<open>World\<close> below) and resolves the
  external call \<^verbatim>\<open>publisherRegistry.isTrusted\<close> to that instance, as the deployment
  script wires them.
\<close>

definition NewsRegistry_constructor :: "env \<Rightarrow> uint256 \<Rightarrow> uint256 \<Rightarrow> NewsRegistry" where
  "NewsRegistry_constructor e vp mv =
     \<lparr>owner = msg_sender e, votingPeriod = vp, minVotes = mv,
      articles = (\<lambda>_. zero_Article), hasVoted = (\<lambda>_ _. False)\<rparr>"

definition submitArticle ::
  "env \<Rightarrow> bytes32 \<Rightarrow> string \<Rightarrow> address \<Rightarrow> PublisherRegistry \<Rightarrow> NewsRegistry
     \<Rightarrow> error + (event list \<times> NewsRegistry)" where
  "submitArticle e h u p reg n =
     (let a = articles n h in
      if createdAt a \<noteq> 0 then Inl (Revert ''Already submitted'')
      else
        let a1 = a\<lparr>contentHash := h, uri := u, publisher := p, submitter := msg_sender e,
                   createdAt := block_timestamp e, status := UnderReview\<rparr>
        in if p \<noteq> 0 \<and> isTrusted reg p
           then
             let a2 = a1\<lparr>status := VerifiedTrue, finalized := True\<rparr>
             in Inr ([PublisherAutoVerified h, Finalized h (status a2)],
                     n\<lparr>articles := (articles n)(h := a2)\<rparr>)
           else Inr ([Submitted h (msg_sender e) u], n\<lparr>articles := (articles n)(h := a1)\<rparr>))"

text \<open>
  In \<^verbatim>\<open>vote\<close> the mark in \<^verbatim>\<open>hasVoted\<close> is written before the counters are
  incremented; a panic in one of the three checked additions reverts that write with
  everything else. The second operand of \<^verbatim>\<open>&&\<close> is evaluated only when the first one
  holds, so the deadline \<^verbatim>\<open>createdAt + votingPeriod\<close> is computed only once the quorum
  is there.
\<close>

definition vote ::
  "env \<Rightarrow> bytes32 \<Rightarrow> bool \<Rightarrow> NewsRegistry \<Rightarrow> error + (event list \<times> NewsRegistry)" where
  "vote e h support n =
     (let a = articles n h in
      if createdAt a = 0 then Inl (Revert ''Not submitted'')
      else if finalized a then Inl (Revert ''Already finalized'')
      else if hasVoted n h (msg_sender e) then Inl (Revert ''Already voted'')
      else
        let hv = (hasVoted n)(h := (hasVoted n h)(msg_sender e := True)) in
        and_then
          (if support
           then and_then (checked_add (yesVotes a) 1) (\<lambda>y. Inr (a\<lparr>yesVotes := y\<rparr>))
           else and_then (checked_add (noVotes a) 1) (\<lambda>y. Inr (a\<lparr>noVotes := y\<rparr>)))
          (\<lambda>a1.
        and_then (checked_add (yesVotes a1) (noVotes a1))
          (\<lambda>totalVotes.
        and_then
          (if totalVotes \<ge> minVotes n
           then and_then (checked_add (createdAt a1) (votingPeriod n))
                  (\<lambda>deadline. Inr (block_timestamp e \<ge> deadline))
           else Inr False)
          (\<lambda>fin.
             if fin
             then
               let a2 = a1\<lparr>status :=
                            (if yesVotes a1 > noVotes a1 then VerifiedTrue
                             else if noVotes a1 > yesVotes a1 then MarkedFake
                             else Disputed),
                          finalized := True\<rparr>
               in Inr ([Voted h (msg_sender e) support, Finalized h (status a2)],
                       n\<lparr>articles := (articles n)(h := a2), hasVoted := hv\<rparr>)
             else Inr ([Voted h (msg_sender e) support],
                       n\<lparr>articles := (articles n)(h := a1), hasVoted := hv\<rparr>)))))"

type_synonym article_tuple =
  "bytes32 \<times> string \<times> address \<times> address \<times> uint256 \<times> Status \<times> uint256 \<times> uint256 \<times> bool"

definition getArticle :: "bytes32 \<Rightarrow> NewsRegistry \<Rightarrow> article_tuple" where
  "getArticle h n =
     (let a = articles n h in
      (contentHash a, uri a, publisher a, submitter a, createdAt a, status a,
       yesVotes a, noVotes a, finalized a))"

definition setVotingParams ::
  "env \<Rightarrow> uint256 \<Rightarrow> uint256 \<Rightarrow> NewsRegistry \<Rightarrow> error + (event list \<times> NewsRegistry)" where
  "setVotingParams e vp mv n =
     (if \<not> onlyOwner e n then Inl Unauthorized
      else Inr ([], n\<lparr>votingPeriod := vp, minVotes := mv\<rparr>))"

section \<open>The ledger: one transaction at a time\<close>

record World =
  pub :: PublisherRegistry
  news :: NewsRegistry

definition deploy :: "env \<Rightarrow> env \<Rightarrow> uint256 \<Rightarrow> uint256 \<Rightarrow> World" where
  "deploy ep en vp mv =
     \<lparr>pub = PublisherRegistry_constructor ep, news = NewsRegistry_constructor en vp mv\<rparr>"

datatype call =
    AddPublisher address
  | RemovePublisher address
  | TrustStatus address
  | PubTransferOwnership address
  | PubRenounceOwnership
  | SubmitArticle bytes32 string address
  | Vote bytes32 bool
  | GetArticle bytes32
  | SetVotingParams uint256 uint256
  | NewsTransferOwnership address
  | NewsRenounceOwnership

datatype ret = RetUnit | RetBool bool | RetArticle article_tuple

definition in_pub ::
  "World \<Rightarrow> error + (event list \<times> PublisherRegistry) \<Rightarrow> error + (ret \<times> event list \<times> World)" where
  "in_pub w r = and_then r (\<lambda>(evs, c). Inr (RetUnit, evs, w\<lparr>pub := c\<rparr>))"

definition in_news ::
  "World \<Rightarrow> error + (event list \<times> NewsRegistry) \<Rightarrow> error + (ret \<times> event list \<times> World)" where
  "in_news w r = and_then r (\<lambda>(evs, n). Inr (RetUnit, evs, w\<lparr>news := n\<rparr>))"

text \<open>
  One external call against the world. The two \<^verbatim>\<open>view\<close> functions return their value
  and leave the world as it is.
\<close>

fun exec :: "env \<Rightarrow> call \<Rightarrow> World \<Rightarrow> error + (ret \<times> event list \<times> World)" where
  "exec e (AddPublisher p) w = in_pub w (addPublisher e p (pub w))"
| "exec e (RemovePublisher p) w = in_pub w (removePublisher e p (pub w))"
| "exec e (TrustStatus p) w = Inr (RetBool (trustStatus p (pub w)), [], w)"
| "exec e (PubTransferOwnership a) w =
     in_pub w (and_then (transferOwnership e a (pub w)) (\<lambda>c. Inr ([], c)))"
| "exec e PubRenounceOwnership w =
     in_pub w (and_then (renounceOwnership e (pub w)) (\<lambda>c. Inr ([], c)))"
| "exec e (SubmitArticle h u p) w = in_news w (submitArticle e h u p (pub w) (news w))"
| "exec e (Vote h support) w = in_news w (vote e h support (news w))"
| "exec e (GetArticle h) w = Inr (RetArticle (getArticle h (news w)), [], w)"
| "exec e (SetVotingParams vp mv) w = in_news w (setVotingParams e vp mv (news w))"
| "exec e (NewsTransferOwnership a) w =
     in_news w (and_then (transferOwnership e a (news w)) (\<lambda>n. Inr ([], n)))"
| "exec e NewsRenounceOwnership w =
     in_news w (and_then (renounceOwnership e (news w)) (\<lambda>n. Inr ([], n)))"

text \<open>A transaction commits the world its call returns, or reverts to the world before.\<close>

definition step :: "env \<times> call \<Rightarrow> World \<Rightarrow> World" where
  "step t w = (case exec (fst t) (snd t) w of Inl _ \<Rightarrow> w | Inr (_, _, w') \<Rightarrow> w')"

fun run :: "World \<Rightarrow> (env \<times> call) list \<Rightarrow> World" where
  "run w [] = w"
| "run w (t # ts) = run (step t w) ts"

text \<open>The ledger clock is strictly positive in every committed transaction.\<close>

definition clock_ok :: "(env \<times> call) list \<Rightarrow> bool" where
  "clock_ok ts = list_all (\<lambda>t. block_timestamp (fst t) \<noteq> 0) ts"

section \<open>Notions used to state what a successful vote writes\<close>

text \<open>
  The article after its counter has been incremented, the test that closes the vote, and
  the verdict, the last two read on the counters as unsigned numbers.
\<close>

definition counted :: "bool \<Rightarrow> Article \<Rightarrow> Article" where
  "counted s a = (if s then a\<lparr>yesVotes := yesVotes a + 1\<rparr> else a\<lparr>noVotes := noVotes a + 1\<rparr>)"

definition closes :: "env \<Rightarrow> NewsRegistry \<Rightarrow> Article \<Rightarrow> bool" where
  "closes e n a \<longleftrightarrow>
     unat (minVotes n) \<le> unat (yesVotes a) + unat (noVotes a) \<and>
     unat (createdAt a) + unat (votingPeriod n) \<le> unat (block_timestamp e)"

definition verdict :: "Article \<Rightarrow> Status" where
  "verdict a =
     (if unat (yesVotes a) > unat (noVotes a) then VerifiedTrue
      else if unat (noVotes a) > unat (yesVotes a) then MarkedFake
      else Disputed)"

section \<open>Example ledgers\<close>

text \<open>
  The deployment script's parameters (a voting period of 60 seconds, a quorum of one vote),
  one article with fingerprint 7 submitted by address 2 at time 100, and a publisher
  registry owned by address 1 that trusts address 5.
\<close>

definition ex_article :: "uint256 \<Rightarrow> uint256 \<Rightarrow> Status \<Rightarrow> bool \<Rightarrow> Article" where
  "ex_article y n st f =
     \<lparr>contentHash = 7, uri = ''u'', publisher = 0, submitter = 2, createdAt = 100,
      status = st, yesVotes = y, noVotes = n, finalized = f\<rparr>"

definition ex_news :: "Article \<Rightarrow> (address \<Rightarrow> bool) \<Rightarrow> NewsRegistry" where
  "ex_news a vs =
     \<lparr>owner = 1, votingPeriod = 60, minVotes = 1,
      articles = (\<lambda>_. zero_Article)(7 := a), hasVoted = (\<lambda>_ _. False)(7 := vs)\<rparr>"

definition ex_pub :: PublisherRegistry where
  "ex_pub = \<lparr>owner = 1, isTrusted = (\<lambda>_. False)(5 := True)\<rparr>"

definition ex_world :: "NewsRegistry \<Rightarrow> World" where
  "ex_world n = \<lparr>pub = ex_pub, news = n\<rparr>"

definition ex_fresh :: World where
  "ex_fresh = ex_world (ex_news zero_Article (\<lambda>_. False))"

definition at :: "address \<Rightarrow> uint256 \<Rightarrow> env" where
  "at a t = \<lparr>msg_sender = a, block_timestamp = t\<rparr>"

definition ex_genesis :: World where
  "ex_genesis = deploy (at 1 10) (at 1 20) 60 1"

text \<open>A world with the article of fingerprint 7 replaced.\<close>

definition ex_with :: "World \<Rightarrow> Article \<Rightarrow> World" where
  "ex_with w a = w\<lparr>news := (news w)\<lparr>articles := (articles (news w))(7 := a)\<rparr>\<rparr>"

section \<open>What each call does\<close>

lemmas ex_defs = ex_article_def ex_news_def ex_pub_def ex_world_def ex_fresh_def at_def
  zero_Article_def

lemmas call_defs = vote_def submitArticle_def checked_add_def and_then_def addPublisher_def
  removePublisher_def setVotingParams_def onlyOwner_def getArticle_def

lemmas ledger_defs = step_def in_news_def in_pub_def

lemmas gen_defs = ex_genesis_def ex_with_def deploy_def NewsRegistry_constructor_def
  PublisherRegistry_constructor_def

lemma checked_add_Inr:
  "checked_add a b = Inr c \<longleftrightarrow> (c = a + b \<and> unat (a + b) = unat a + unat b)"
  unfolding checked_add_def using unat_add_lem [of a b] by auto

lemma and_then_Inr:
  "and_then r f = Inr y \<longleftrightarrow> (\<exists>v. r = Inr v \<and> f v = Inr y)"
  by (cases r) (simp_all add: and_then_def)

lemma vote_NotFound:
  "createdAt (articles n h) = 0 \<Longrightarrow> vote e h s n = Inl NotFound"
  by (simp add: vote_def)

lemma vote_AlreadyFinalized:
  "createdAt (articles n h) \<noteq> 0 \<Longrightarrow> finalized (articles n h)
     \<Longrightarrow> vote e h s n = Inl AlreadyFinalized"
  by (simp add: vote_def)

lemma vote_DuplicateVote:
  "createdAt (articles n h) \<noteq> 0 \<Longrightarrow> \<not> finalized (articles n h)
     \<Longrightarrow> hasVoted n h (msg_sender e) \<Longrightarrow> vote e h s n = Inl DuplicateVote"
  by (simp add: vote_def)

lemma vote_Inr:
  assumes "vote e h s n = Inr (evs, n')"
  shows "createdAt (articles n h) \<noteq> 0 \<and> \<not> finalized (articles n h)
    \<and> \<not> hasVoted n h (msg_sender e)
    \<and> (if s then unat (yesVotes (articles n h) + 1) = unat (yesVotes (articles n h)) + 1
         else unat (noVotes (articles n h) + 1) = unat (noVotes (articles n h)) + 1)
    \<and> n' = n\<lparr>articles := (articles n)(h :=
              if closes e n (counted s (articles n h))
              then (counted s (articles n h))
                     \<lparr>status := verdict (counted s (articles n h)), finalized := True\<rparr>
              else counted s (articles n h)),
            hasVoted := (hasVoted n)(h := (hasVoted n h)(msg_sender e := True))\<rparr>
    \<and> evs = Voted h (msg_sender e) s #
        (if closes e n (counted s (articles n h))
         then [Finalized h (verdict (counted s (articles n h)))] else [])"
  using assms
  by (auto simp: vote_def Let_def and_then_Inr checked_add_Inr counted_def closes_def verdict_def
        word_le_nat_alt word_less_nat_alt split: if_splits)

lemma submit_Inl:
  "createdAt (articles n h) \<noteq> 0 \<Longrightarrow> submitArticle e h u p reg n = Inl DuplicateSubmission"
  by (simp add: submitArticle_def)

lemma submit_Inr:
  "submitArticle e h u p reg n = Inr (evs, n') \<longleftrightarrow>
     createdAt (articles n h) = 0 \<and>
     (if p \<noteq> 0 \<and> isTrusted reg p
      then evs = [PublisherAutoVerified h, Finalized h VerifiedTrue] \<and>
           n' = n\<lparr>articles := (articles n)(h := (articles n h)\<lparr>contentHash := h, uri := u,
                  publisher := p, submitter := msg_sender e, createdAt := block_timestamp e,
                  status := VerifiedTrue, finalized := True\<rparr>)\<rparr>
      else evs = [Submitted h (msg_sender e) u] \<and>
           n' = n\<lparr>articles := (articles n)(h := (articles n h)\<lparr>contentHash := h, uri := u,
                  publisher := p, submitter := msg_sender e, createdAt := block_timestamp e,
                  status := UnderReview\<rparr>)\<rparr>)"
  by (auto simp: submitArticle_def Let_def)

text \<open>
  Only a successful \<open>SubmitArticle\<close> or \<open>Vote\<close> writes to the articles or to the vote
  records; every other transaction, and every reverted one, leaves both as they were.
\<close>

lemma step_cases:
  assumes "w' = step (e, c) w"
  shows "(articles (news w') = articles (news w) \<and> hasVoted (news w') = hasVoted (news w))
    \<or> (\<exists>h u p evs. c = SubmitArticle h u p \<and>
          submitArticle e h u p (pub w) (news w) = Inr (evs, news w'))
    \<or> (\<exists>h s evs. c = Vote h s \<and> vote e h s (news w) = Inr (evs, news w'))"
proof (cases c)
  case (SubmitArticle h u p)
  then show ?thesis using assms
    by (cases "submitArticle e h u p (pub w) (news w)")
       (auto simp: step_def in_news_def and_then_def)
next
  case (Vote h s)
  then show ?thesis using assms
    by (cases "vote e h s (news w)") (auto simp: step_def in_news_def and_then_def)
qed (use assms in \<open>auto simp: step_def in_news_def in_pub_def and_then_def setVotingParams_def
      addPublisher_def removePublisher_def transferOwnership_def renounceOwnership_def
      split: sum.splits if_splits\<close>)

section \<open>What one transaction preserves\<close>

lemma step_finalized:
  assumes "finalized (articles (news w) h)"
  shows "finalized (articles (news (step (e, c) w)) h)"
  using step_cases [OF refl, of e c w] assms
  by (auto simp: submit_Inr dest!: vote_Inr split: if_splits)

lemma step_created:
  assumes "createdAt (articles (news w) h) \<noteq> 0"
  shows "createdAt (articles (news (step (e, c) w)) h) = createdAt (articles (news w) h)
    \<and> submitter (articles (news (step (e, c) w)) h) = submitter (articles (news w) h)"
  using step_cases [OF refl, of e c w] assms
  by (auto simp: submit_Inr counted_def dest!: vote_Inr split: if_splits)

lemma step_voted:
  assumes "hasVoted (news w) h v"
  shows "hasVoted (news (step (e, c) w)) h v"
  using step_cases [OF refl, of e c w] assms
  by (auto simp: submit_Inr dest!: vote_Inr split: if_splits)

lemma step_frozen:
  assumes "finalized (articles (news w) h)" and "createdAt (articles (news w) h) \<noteq> 0"
  shows "articles (news (step (e, c) w)) h = articles (news w) h
    \<and> hasVoted (news (step (e, c) w)) h = hasVoted (news w) h"
  using step_cases [OF refl, of e c w] assms
  by (auto simp: submit_Inr dest!: vote_Inr split: if_splits)

lemma step_closed_votes:
  assumes "finalized (articles (news w) h)"
  shows "yesVotes (articles (news (step (e, c) w)) h) = yesVotes (articles (news w) h)
    \<and> noVotes (articles (news (step (e, c) w)) h) = noVotes (articles (news w) h)
    \<and> hasVoted (news (step (e, c) w)) h = hasVoted (news w) h"
  using step_cases [OF refl, of e c w] assms
  by (auto simp: submit_Inr dest!: vote_Inr split: if_splits)

text \<open>A fingerprint without a record has no votes, whatever the clock shows.\<close>

lemma step_untouched:
  assumes "createdAt (articles (news w) h) = 0 \<longrightarrow>
      yesVotes (articles (news w) h) = 0 \<and> noVotes (articles (news w) h) = 0 \<and>
      hasVoted (news w) h = (\<lambda>_. False)"
    and "createdAt (articles (news (step (e, c) w)) h) = 0"
  shows "yesVotes (articles (news (step (e, c) w)) h) = 0 \<and>
    noVotes (articles (news (step (e, c) w)) h) = 0 \<and>
    hasVoted (news (step (e, c) w)) h = (\<lambda>_. False)"
  using step_cases [OF refl, of e c w] assms
  by (auto simp: submit_Inr counted_def dest!: vote_Inr split: if_splits)

text \<open>With a positive clock, a fingerprint without a record holds the zero article.\<close>

lemma step_blank:
  assumes "createdAt (articles (news w) h) = 0 \<longrightarrow> articles (news w) h = zero_Article"
    and "block_timestamp e \<noteq> 0"
    and "createdAt (articles (news (step (e, c) w)) h) = 0"
  shows "articles (news (step (e, c) w)) h = zero_Article"
  using step_cases [OF refl, of e c w] assms
  by (auto simp: submit_Inr counted_def dest!: vote_Inr split: if_splits)

lemma card_voters_upd:
  fixes f :: "address \<Rightarrow> bool"
  assumes "\<not> f v"
  shows "card {x. (f(v := True)) x} = Suc (card {x. f x})"
proof -
  have "{x. (f(v := True)) x} = insert v {x. f x}" by auto
  moreover have "v \<notin> {x. f x}" using assms by simp
  ultimately show ?thesis by simp
qed

lemma step_count:
  assumes "unat (yesVotes (articles (news w) h)) + unat (noVotes (articles (news w) h))
     = card {v. hasVoted (news w) h v}"
  shows "unat (yesVotes (articles (news (step (e, c) w)) h))
     + unat (noVotes (articles (news (step (e, c) w)) h))
     = card {v. hasVoted (news (step (e, c) w)) h v}"
  using step_cases [OF refl, of e c w] assms
  by (auto simp: submit_Inr counted_def card_voters_upd dest!: vote_Inr split: if_splits)

section \<open>What a history of transactions preserves\<close>

lemma run_finalized:
  "finalized (articles (news w) h) \<Longrightarrow> finalized (articles (news (run w ts)) h)"
proof (induction ts arbitrary: w)
  case (Cons t ts)
  then show ?case using step_finalized [of w h "fst t" "snd t"] by simp
qed simp

lemma run_created:
  "createdAt (articles (news w) h) \<noteq> 0 \<Longrightarrow>
   createdAt (articles (news (run w ts)) h) = createdAt (articles (news w) h) \<and>
   submitter (articles (news (run w ts)) h) = submitter (articles (news w) h)"
proof (induction ts arbitrary: w)
  case (Cons t ts)
  from step_created [OF Cons.prems, of "fst t" "snd t"]
  have s: "createdAt (articles (news (step t w)) h) = createdAt (articles (news w) h)"
      "submitter (articles (news (step t w)) h) = submitter (articles (news w) h)" by simp_all
  with Cons.prems have "createdAt (articles (news (step t w)) h) \<noteq> 0" by simp
  from Cons.IH [OF this] s show ?case by simp
qed simp

lemma run_voted:
  "hasVoted (news w) h v \<Longrightarrow> hasVoted (news (run w ts)) h v"
proof (induction ts arbitrary: w)
  case (Cons t ts)
  then show ?case using step_voted [of w h v "fst t" "snd t"] by simp
qed simp

lemma run_frozen:
  "finalized (articles (news w) h) \<Longrightarrow> createdAt (articles (news w) h) \<noteq> 0 \<Longrightarrow>
   articles (news (run w ts)) h = articles (news w) h \<and>
   hasVoted (news (run w ts)) h = hasVoted (news w) h"
proof (induction ts arbitrary: w)
  case (Cons t ts)
  from step_frozen [OF Cons.prems, of "fst t" "snd t"]
  have s: "articles (news (step t w)) h = articles (news w) h"
      "hasVoted (news (step t w)) h = hasVoted (news w) h" by simp_all
  with Cons.prems Cons.IH [of "step t w"] show ?case by simp
qed simp

lemma run_closed_votes:
  "finalized (articles (news w) h) \<Longrightarrow>
   yesVotes (articles (news (run w ts)) h) = yesVotes (articles (news w) h) \<and>
   noVotes (articles (news (run w ts)) h) = noVotes (articles (news w) h) \<and>
   hasVoted (news (run w ts)) h = hasVoted (news w) h"
proof (induction ts arbitrary: w)
  case (Cons t ts)
  from step_closed_votes [OF Cons.prems, of "fst t" "snd t"]
    step_finalized [OF Cons.prems, of "fst t" "snd t"] Cons.IH [of "step t w"]
  show ?case by simp
qed simp

lemma run_untouched:
  assumes "createdAt (articles (news w) h) = 0 \<longrightarrow>
      yesVotes (articles (news w) h) = 0 \<and> noVotes (articles (news w) h) = 0 \<and>
      hasVoted (news w) h = (\<lambda>_. False)"
  shows "createdAt (articles (news (run w ts)) h) = 0 \<longrightarrow>
      yesVotes (articles (news (run w ts)) h) = 0 \<and>
      noVotes (articles (news (run w ts)) h) = 0 \<and>
      hasVoted (news (run w ts)) h = (\<lambda>_. False)"
  using assms
proof (induction ts arbitrary: w)
  case (Cons t ts)
  have "createdAt (articles (news (step t w)) h) = 0 \<longrightarrow>
      yesVotes (articles (news (step t w)) h) = 0 \<and>
      noVotes (articles (news (step t w)) h) = 0 \<and>
      hasVoted (news (step t w)) h = (\<lambda>_. False)"
    using step_untouched [OF Cons.prems, of "fst t" "snd t"] by simp
  from Cons.IH [OF this] show ?case by simp
qed simp

lemma run_blank:
  assumes "createdAt (articles (news w) h) = 0 \<longrightarrow> articles (news w) h = zero_Article"
    and "clock_ok ts"
  shows "createdAt (articles (news (run w ts)) h) = 0 \<longrightarrow>
      articles (news (run w ts)) h = zero_Article"
  using assms
proof (induction ts arbitrary: w)
  case (Cons t ts)
  from Cons.prems(2) have c: "block_timestamp (fst t) \<noteq> 0" "clock_ok ts"
    by (simp_all add: clock_ok_def)
  have "createdAt (articles (news (step t w)) h) = 0 \<longrightarrow>
      articles (news (step t w)) h = zero_Article"
    using step_blank [OF Cons.prems(1) c(1), of "snd t"] by simp
  from Cons.IH [OF this c(2)] show ?case by simp
qed simp

lemma run_count:
  assumes "unat (yesVotes (articles (news w) h)) + unat (noVotes (articles (news w) h))
     = card {v. hasVoted (news w) h v}"
  shows "unat (yesVotes (articles (news (run w ts)) h))
     + unat (noVotes (articles (news (run w ts)) h))
     = card {v. hasVoted (news (run w ts)) h v}"
  using assms
proof (induction ts arbitrary: w)
  case (Cons t ts)
  from Cons.IH [OF step_count [OF Cons.prems, of "fst t" "snd t"]] show ?case by simp
qed simp

lemma deploy_news:
  "articles (news (deploy ep en vp mv)) h = zero_Article"
  "hasVoted (news (deploy ep en vp mv)) h = (\<lambda>_. False)"
  by (simp_all add: deploy_def NewsRegistry_constructor_def)

lemma reachable_untouched:
  "createdAt (articles (news (run (deploy ep en vp mv) ts)) h) = 0 \<Longrightarrow>
      yesVotes (articles (news (run (deploy ep en vp mv) ts)) h) = 0 \<and>
      noVotes (articles (news (run (deploy ep en vp mv) ts)) h) = 0 \<and>
      hasVoted (news (run (deploy ep en vp mv) ts)) h = (\<lambda>_. False)"
  using run_untouched [of "deploy ep en vp mv" h ts]
  by (simp add: deploy_news zero_Article_def)

lemma reachable_blank:
  "clock_ok ts \<Longrightarrow> createdAt (articles (news (run (deploy ep en vp mv) ts)) h) = 0 \<Longrightarrow>
      articles (news (run (deploy ep en vp mv) ts)) h = zero_Article"
  using run_blank [of "deploy ep en vp mv" h ts]
  by (simp add: deploy_news)

lemma reachable_count:
  "unat (yesVotes (articles (news (run (deploy ep en vp mv) ts)) h))
     + unat (noVotes (articles (news (run (deploy ep en vp mv) ts)) h))
     = card {v. hasVoted (news (run (deploy ep en vp mv) ts)) h v}"
  by (rule run_count) (simp add: deploy_news zero_Article_def)

lemma reachable_finalized_created:
  assumes "clock_ok ts" and "finalized (articles (news (run (deploy ep en vp mv) ts)) h)"
  shows "createdAt (articles (news (run (deploy ep en vp mv) ts)) h) \<noteq> 0"
proof
  assume "createdAt (articles (news (run (deploy ep en vp mv) ts)) h) = 0"
  from reachable_blank [OF assms(1) this] assms(2) show False
    by (simp add: zero_Article_def)
qed

section \<open>Reverting and committing\<close>

lemma exec_Inl_step: "exec e c w = Inl x \<Longrightarrow> step (e, c) w = w"
  by (simp add: step_def)

lemma in_news_Inl: "in_news w r = Inl x \<longleftrightarrow> r = Inl x"
  by (cases r) (auto simp: in_news_def and_then_def)

lemma in_news_Inr:
  "in_news w r = Inr (v, evs, w') \<longleftrightarrow>
     (\<exists>n. r = Inr (evs, n) \<and> v = RetUnit \<and> w' = w\<lparr>news := n\<rparr>)"
  by (cases r) (auto simp: in_news_def and_then_def)

section \<open>The publisher registry\<close>

text \<open>
  C8. For an owner call, \<open>addPublisher p\<close> fails with \<open>AlreadyTrusted\<close> exactly when \<open>p\<close>
  is already a member, and \<open>removePublisher q\<close> fails with \<open>NotTrusted\<close> exactly when \<open>q\<close>
  is not a member. On success the membership of that one address becomes true,
  respectively false, the matching notification is emitted and nothing else in the world
  changes; adding the same address a second time then fails with \<open>AlreadyTrusted\<close>.
\<close>

theorem publisher_membership:
  assumes "msg_sender e = owner (pub w)"
  shows "(addPublisher e p (pub w) = Inl AlreadyTrusted \<longleftrightarrow> isTrusted (pub w) p)
    \<and> (\<not> isTrusted (pub w) p \<longrightarrow>
         addPublisher e p (pub w)
           = Inr ([PublisherAdded p], (pub w)\<lparr>isTrusted := (isTrusted (pub w))(p := True)\<rparr>)
         \<and> step (e, AddPublisher p) w
           = w\<lparr>pub := (pub w)\<lparr>isTrusted := (isTrusted (pub w))(p := True)\<rparr>\<rparr>
         \<and> exec e (AddPublisher p) (step (e, AddPublisher p) w) = Inl AlreadyTrusted)
    \<and> (removePublisher e q (pub w) = Inl NotTrusted \<longleftrightarrow> \<not> isTrusted (pub w) q)
    \<and> (isTrusted (pub w) q \<longrightarrow>
         removePublisher e q (pub w)
           = Inr ([PublisherRemoved q], (pub w)\<lparr>isTrusted := (isTrusted (pub w))(q := False)\<rparr>)
         \<and> step (e, RemovePublisher q) w
           = w\<lparr>pub := (pub w)\<lparr>isTrusted := (isTrusted (pub w))(q := False)\<rparr>\<rparr>)"
  using assms
  by (simp add: addPublisher_def removePublisher_def onlyOwner_def step_def in_pub_def
        and_then_def)

theorem publisher_membership_witness:
  "msg_sender (at 1 50) = owner (pub ex_fresh)
   \<and> \<not> isTrusted (pub ex_fresh) 6
   \<and> isTrusted (pub ex_fresh) 5
   \<and> addPublisher (at 1 50) 6 (pub ex_fresh)
       = Inr ([PublisherAdded 6],
              (pub ex_fresh)\<lparr>isTrusted := (isTrusted (pub ex_fresh))(6 := True)\<rparr>)
   \<and> exec (at 1 50) (AddPublisher 6) (step (at 1 50, AddPublisher 6) ex_fresh)
       = Inl AlreadyTrusted
   \<and> addPublisher (at 1 50) 5 (pub ex_fresh) = Inl AlreadyTrusted
   \<and> removePublisher (at 1 50) 5 (pub ex_fresh)
       = Inr ([PublisherRemoved 5],
              (pub ex_fresh)\<lparr>isTrusted := (isTrusted (pub ex_fresh))(5 := False)\<rparr>)
   \<and> removePublisher (at 1 50) 6 (pub ex_fresh) = Inl NotTrusted"
proof -
  have o: "msg_sender (at 1 50) = owner (pub ex_fresh)"
    by (simp add: ex_defs)
  have n6: "\<not> isTrusted (pub ex_fresh) 6" and t5: "isTrusted (pub ex_fresh) 5"
    by (simp_all add: ex_defs)
  from publisher_membership [OF o, of 6 5] publisher_membership [OF o, of 5 6] o n6 t5
  show ?thesis by blast
qed

section \<open>Owner gating\<close>

text \<open>
  C7. Each of \<open>addPublisher\<close>, \<open>removePublisher\<close> and \<open>setVotingParams\<close>, called by anyone
  but the current owner of its contract, fails with \<open>Unauthorized\<close>, and the transaction
  leaves the world as it was.
\<close>

theorem non_owner_unauthorized:
  "(msg_sender e \<noteq> owner (pub w) \<longrightarrow>
      addPublisher e p (pub w) = Inl Unauthorized \<and> step (e, AddPublisher p) w = w \<and>
      removePublisher e p (pub w) = Inl Unauthorized \<and> step (e, RemovePublisher p) w = w)
   \<and> (msg_sender e \<noteq> owner (news w) \<longrightarrow>
      setVotingParams e vp mv (news w) = Inl Unauthorized \<and>
      step (e, SetVotingParams vp mv) w = w)"
  by (auto simp: addPublisher_def removePublisher_def setVotingParams_def onlyOwner_def step_def
        in_pub_def in_news_def and_then_def)

theorem non_owner_unauthorized_witness:
  "msg_sender (at 9 50) \<noteq> owner (pub ex_fresh)
   \<and> msg_sender (at 9 50) \<noteq> owner (news ex_fresh)
   \<and> addPublisher (at 9 50) 6 (pub ex_fresh) = Inl Unauthorized
   \<and> step (at 9 50, AddPublisher 6) ex_fresh = ex_fresh
   \<and> removePublisher (at 9 50) 6 (pub ex_fresh) = Inl Unauthorized
   \<and> step (at 9 50, RemovePublisher 6) ex_fresh = ex_fresh
   \<and> setVotingParams (at 9 50) 0 0 (news ex_fresh) = Inl Unauthorized
   \<and> step (at 9 50, SetVotingParams 0 0) ex_fresh = ex_fresh"
proof -
  have p: "msg_sender (at 9 50) \<noteq> owner (pub ex_fresh)"
    and n: "msg_sender (at 9 50) \<noteq> owner (news ex_fresh)"
    by (simp_all add: ex_defs)
  from non_owner_unauthorized [of "at 9 50" ex_fresh 6 0 0] p n
  show ?thesis by blast
qed

section \<open>Voting\<close>

text \<open>
  C1. A successful \<open>vote\<close> finalizes the article if and only if, with the vote counted,
  \<open>yesVotes + noVotes \<ge> minVotes\<close> and the ledger time is at least
  \<open>createdAt + votingPeriod\<close>; the \<open>Finalized\<close> notification is emitted in exactly that
  case. The article was not finalized before, and the vote leaves \<open>createdAt\<close> alone.
\<close>

theorem vote_finalizes_iff:
  assumes "vote e h s n = Inr (evs, n')"
  shows "\<not> finalized (articles n h)
    \<and> createdAt (articles n' h) = createdAt (articles n h)
    \<and> (finalized (articles n' h) \<longleftrightarrow>
         unat (yesVotes (articles n' h)) + unat (noVotes (articles n' h)) \<ge> unat (minVotes n)
         \<and> unat (block_timestamp e) \<ge> unat (createdAt (articles n h)) + unat (votingPeriod n))
    \<and> (Finalized h (status (articles n' h)) \<in> set evs \<longleftrightarrow> finalized (articles n' h))"
  using vote_Inr [OF assms]
  by (auto simp: counted_def closes_def)

text \<open>
  With a quorum of 1 and a period of 60, a vote at \<open>createdAt + 10\<close> does not finalize, the
  next one, from another voter at \<open>createdAt + 61\<close>, does.
\<close>

theorem vote_finalizes_iff_witness:
  "vote (at 3 110) 7 True (ex_news (ex_article 0 0 UnderReview False) (\<lambda>_. False))
     = Inr ([Voted 7 3 True],
            ex_news (ex_article 1 0 UnderReview False) ((\<lambda>_. False)(3 := True)))
   \<and> \<not> finalized
        (articles (ex_news (ex_article 1 0 UnderReview False) ((\<lambda>_. False)(3 := True))) 7)
   \<and> vote (at 4 161) 7 True
        (ex_news (ex_article 1 0 UnderReview False) ((\<lambda>_. False)(3 := True)))
     = Inr ([Voted 7 4 True, Finalized 7 VerifiedTrue],
            ex_news (ex_article 2 0 VerifiedTrue True) ((\<lambda>_. False)(3 := True, 4 := True)))
   \<and> finalized (articles
        (ex_news (ex_article 2 0 VerifiedTrue True) ((\<lambda>_. False)(3 := True, 4 := True))) 7)"
proof -
  have a: "vote (at 3 110) 7 True (ex_news (ex_article 0 0 UnderReview False) (\<lambda>_. False))
     = Inr ([Voted 7 3 True],
            ex_news (ex_article 1 0 UnderReview False) ((\<lambda>_. False)(3 := True)))"
    by (simp add: ex_defs call_defs)
  have b: "vote (at 4 161) 7 True
       (ex_news (ex_article 1 0 UnderReview False) ((\<lambda>_. False)(3 := True)))
     = Inr ([Voted 7 4 True, Finalized 7 VerifiedTrue],
            ex_news (ex_article 2 0 VerifiedTrue True) ((\<lambda>_. False)(3 := True, 4 := True)))"
    by (simp add: ex_defs call_defs)
  have c: "\<not> finalized
        (articles (ex_news (ex_article 1 0 UnderReview False) ((\<lambda>_. False)(3 := True))) 7)"
    using vote_finalizes_iff [OF a] by (simp add: ex_defs)
  have d: "finalized (articles
        (ex_news (ex_article 2 0 VerifiedTrue True) ((\<lambda>_. False)(3 := True, 4 := True))) 7)"
    using vote_finalizes_iff [OF b] by (simp add: ex_defs)
  show ?thesis by (intro conjI a b c d)
qed

text \<open>
  C2. Whenever a \<open>vote\<close> finalizes an article, the status it writes is the plurality of the
  two counters as they stand with that vote counted: more yes than no gives
  \<open>VerifiedTrue\<close>, more no than yes gives \<open>MarkedFake\<close>, a tie gives \<open>Disputed\<close>; the
  \<open>Finalized\<close> notification carries that status.
\<close>

theorem vote_verdict:
  assumes "vote e h s n = Inr (evs, n')" and "finalized (articles n' h)"
  shows "status (articles n' h) =
      (if unat (yesVotes (articles n' h)) > unat (noVotes (articles n' h)) then VerifiedTrue
       else if unat (noVotes (articles n' h)) > unat (yesVotes (articles n' h)) then MarkedFake
       else Disputed)
    \<and> evs = [Voted h (msg_sender e) s, Finalized h (status (articles n' h))]"
  using vote_Inr [OF assms(1)] assms(2)
  by (auto simp: counted_def verdict_def split: if_splits)

text \<open>Three votes to one, one to three, and two each.\<close>

theorem vote_verdict_witness:
  "vote (at 3 200) 7 True
       (ex_news (ex_article 2 1 UnderReview False)
          ((\<lambda>_. False)(10 := True, 11 := True, 12 := True)))
     = Inr ([Voted 7 3 True, Finalized 7 VerifiedTrue],
        (ex_news (ex_article 3 1 VerifiedTrue True)
          ((\<lambda>_. False)(10 := True, 11 := True, 12 := True, 3 := True))))
   \<and> finalized (articles
        (ex_news (ex_article 3 1 VerifiedTrue True)
          ((\<lambda>_. False)(10 := True, 11 := True, 12 := True, 3 := True))) 7)
   \<and> status (articles
        (ex_news (ex_article 3 1 VerifiedTrue True)
          ((\<lambda>_. False)(10 := True, 11 := True, 12 := True, 3 := True))) 7) = VerifiedTrue
   \<and> vote (at 3 200) 7 False
       (ex_news (ex_article 1 2 UnderReview False)
          ((\<lambda>_. False)(10 := True, 11 := True, 12 := True)))
     = Inr ([Voted 7 3 False, Finalized 7 MarkedFake],
        (ex_news (ex_article 1 3 MarkedFake True)
          ((\<lambda>_. False)(10 := True, 11 := True, 12 := True, 3 := True))))
   \<and> finalized (articles
        (ex_news (ex_article 1 3 MarkedFake True)
          ((\<lambda>_. False)(10 := True, 11 := True, 12 := True, 3 := True))) 7)
   \<and> status (articles
        (ex_news (ex_article 1 3 MarkedFake True)
          ((\<lambda>_. False)(10 := True, 11 := True, 12 := True, 3 := True))) 7) = MarkedFake
   \<and> vote (at 3 200) 7 True
       (ex_news (ex_article 1 2 UnderReview False)
          ((\<lambda>_. False)(10 := True, 11 := True, 12 := True)))
     = Inr ([Voted 7 3 True, Finalized 7 Disputed],
        (ex_news (ex_article 2 2 Disputed True)
          ((\<lambda>_. False)(10 := True, 11 := True, 12 := True, 3 := True))))
   \<and> finalized (articles
        (ex_news (ex_article 2 2 Disputed True)
          ((\<lambda>_. False)(10 := True, 11 := True, 12 := True, 3 := True))) 7)
   \<and> status (articles
        (ex_news (ex_article 2 2 Disputed True)
          ((\<lambda>_. False)(10 := True, 11 := True, 12 := True, 3 := True))) 7) = Disputed"
proof -
  have a: "vote (at 3 200) 7 True
       (ex_news (ex_article 2 1 UnderReview False)
          ((\<lambda>_. False)(10 := True, 11 := True, 12 := True)))
     = Inr ([Voted 7 3 True, Finalized 7 VerifiedTrue],
        (ex_news (ex_article 3 1 VerifiedTrue True)
          ((\<lambda>_. False)(10 := True, 11 := True, 12 := True, 3 := True))))"
    by (simp add: ex_defs call_defs)
  have fa: "finalized (articles
        (ex_news (ex_article 3 1 VerifiedTrue True)
          ((\<lambda>_. False)(10 := True, 11 := True, 12 := True, 3 := True))) 7)"
    by (simp add: ex_defs)
  have sa: "status (articles
        (ex_news (ex_article 3 1 VerifiedTrue True)
          ((\<lambda>_. False)(10 := True, 11 := True, 12 := True, 3 := True))) 7) = VerifiedTrue"
    using vote_verdict [OF a fa] by (simp add: ex_defs)
  have b: "vote (at 3 200) 7 False
       (ex_news (ex_article 1 2 UnderReview False)
          ((\<lambda>_. False)(10 := True, 11 := True, 12 := True)))
     = Inr ([Voted 7 3 False, Finalized 7 MarkedFake],
        (ex_news (ex_article 1 3 MarkedFake True)
          ((\<lambda>_. False)(10 := True, 11 := True, 12 := True, 3 := True))))"
    by (simp add: ex_defs call_defs)
  have fb: "finalized (articles
        (ex_news (ex_article 1 3 MarkedFake True)
          ((\<lambda>_. False)(10 := True, 11 := True, 12 := True, 3 := True))) 7)"
    by (simp add: ex_defs)
  have sb: "status (articles
        (ex_news (ex_article 1 3 MarkedFake True)
          ((\<lambda>_. False)(10 := True, 11 := True, 12 := True, 3 := True))) 7) = MarkedFake"
    using vote_verdict [OF b fb] by (simp add: ex_defs)
  have c: "vote (at 3 200) 7 True
       (ex_news (ex_article 1 2 UnderReview False)
          ((\<lambda>_. False)(10 := True, 11 := True, 12 := True)))
     = Inr ([Voted 7 3 True, Finalized 7 Disputed],
        (ex_news (ex_article 2 2 Disputed True)
          ((\<lambda>_. False)(10 := True, 11 := True, 12 := True, 3 := True))))"
    by (simp add: ex_defs call_defs)
  have fc: "finalized (articles
        (ex_news (ex_article 2 2 Disputed True)
          ((\<lambda>_. False)(10 := True, 11 := True, 12 := True, 3 := True))) 7)"
    by (simp add: ex_defs)
  have sc: "status (articles
        (ex_news (ex_article 2 2 Disputed True)
          ((\<lambda>_. False)(10 := True, 11 := True, 12 := True, 3 := True))) 7) = Disputed"
    using vote_verdict [OF c fc] by (simp add: ex_defs)
  show ?thesis by (intro conjI a fa sa b fb sb c fc sc)
qed

text \<open>
  C5, as the code has it. \<open>vote\<close> checks in this order: it fails with \<open>NotFound\<close> when
  no record exists for the fingerprint, with \<open>AlreadyFinalized\<close> when the record exists and
  is finalized, and with \<open>DuplicateVote\<close> when the record exists, is not finalized and the
  caller already has a vote record for it. On success the caller had no vote record, has
  one afterwards, and exactly one of the two counters has grown by one. A failed vote
  leaves the world as it was. After one successful vote of a caller on a fingerprint,
  whatever transactions follow, every further vote of that caller on that fingerprint
  fails, with \<open>AlreadyFinalized\<close> or with \<open>DuplicateVote\<close>.
\<close>

theorem vote_at_most_once:
  "(createdAt (articles n h) = 0 \<longrightarrow> vote e h s n = Inl NotFound)
   \<and> (createdAt (articles n h) \<noteq> 0 \<and> finalized (articles n h) \<longrightarrow>
        vote e h s n = Inl AlreadyFinalized)
   \<and> (createdAt (articles n h) \<noteq> 0 \<and> \<not> finalized (articles n h) \<and>
        hasVoted n h (msg_sender e) \<longrightarrow> vote e h s n = Inl DuplicateVote)
   \<and> (vote e h s n = Inr (evs, n') \<longrightarrow>
        \<not> hasVoted n h (msg_sender e) \<and> hasVoted n' h (msg_sender e)
        \<and> (if s
            then unat (yesVotes (articles n' h)) = unat (yesVotes (articles n h)) + 1
                 \<and> noVotes (articles n' h) = noVotes (articles n h)
            else unat (noVotes (articles n' h)) = unat (noVotes (articles n h)) + 1
                 \<and> yesVotes (articles n' h) = yesVotes (articles n h))
        \<and> Voted h (msg_sender e) s \<in> set evs)
   \<and> (exec e (Vote h s) w = Inl x \<longrightarrow> step (e, Vote h s) w = w)
   \<and> (exec e (Vote h s) w = Inr (r, evs', w1) \<and> msg_sender e' = msg_sender e \<longrightarrow>
        exec e' (Vote h s') (run w1 ts) = Inl AlreadyFinalized \<or>
        exec e' (Vote h s') (run w1 ts) = Inl DuplicateVote)"
proof (intro conjI impI)
  assume "createdAt (articles n h) = 0"
  then show "vote e h s n = Inl NotFound" by (rule vote_NotFound)
next
  assume "createdAt (articles n h) \<noteq> 0 \<and> finalized (articles n h)"
  then show "vote e h s n = Inl AlreadyFinalized" by (simp add: vote_AlreadyFinalized)
next
  assume "createdAt (articles n h) \<noteq> 0 \<and> \<not> finalized (articles n h) \<and>
        hasVoted n h (msg_sender e)"
  then show "vote e h s n = Inl DuplicateVote" by (simp add: vote_DuplicateVote)
next
  assume v: "vote e h s n = Inr (evs, n')"
  from vote_Inr [OF v] show "\<not> hasVoted n h (msg_sender e)" by simp
  from vote_Inr [OF v] show "hasVoted n' h (msg_sender e)" by simp
  from vote_Inr [OF v] show "if s
            then unat (yesVotes (articles n' h)) = unat (yesVotes (articles n h)) + 1
                 \<and> noVotes (articles n' h) = noVotes (articles n h)
            else unat (noVotes (articles n' h)) = unat (noVotes (articles n h)) + 1
                 \<and> yesVotes (articles n' h) = yesVotes (articles n h)"
    by (auto simp: counted_def)
  from vote_Inr [OF v] show "Voted h (msg_sender e) s \<in> set evs" by simp
next
  assume "exec e (Vote h s) w = Inl x"
  then show "step (e, Vote h s) w = w" by (rule exec_Inl_step)
next
  assume a: "exec e (Vote h s) w = Inr (r, evs', w1) \<and> msg_sender e' = msg_sender e"
  then obtain n1 where v: "vote e h s (news w) = Inr (evs', n1)" and w1: "w1 = w\<lparr>news := n1\<rparr>"
    by (auto simp: in_news_Inr)
  from vote_Inr [OF v] w1 have c: "createdAt (articles (news w1) h) \<noteq> 0"
    and hv: "hasVoted (news w1) h (msg_sender e)"
    by (auto simp: counted_def)
  from run_created [OF c, of ts] c
  have c': "createdAt (articles (news (run w1 ts)) h) \<noteq> 0" by simp
  from run_voted [OF hv, of ts] a
  have hv': "hasVoted (news (run w1 ts)) h (msg_sender e')" by simp
  show "exec e' (Vote h s') (run w1 ts) = Inl AlreadyFinalized \<or>
        exec e' (Vote h s') (run w1 ts) = Inl DuplicateVote"
  proof (cases "finalized (articles (news (run w1 ts)) h)")
    case True
    from vote_AlreadyFinalized [OF c' True] show ?thesis by (simp add: in_news_Inl)
  next
    case False
    from vote_DuplicateVote [OF c' False hv'] show ?thesis by (simp add: in_news_Inl)
  qed
qed

theorem vote_at_most_once_witness:
  "createdAt (articles (news ex_genesis) 8) = 0
   \<and> vote (at 3 110) 8 True (news ex_genesis) = Inl NotFound
   \<and> (createdAt (articles (ex_news (ex_article 1 0 VerifiedTrue True) ((\<lambda>_. False)(3 := True))) 7) \<noteq> 0
      \<and> finalized (articles (ex_news (ex_article 1 0 VerifiedTrue True) ((\<lambda>_. False)(3 := True))) 7))
   \<and> vote (at 4 170) 7 True (ex_news (ex_article 1 0 VerifiedTrue True) ((\<lambda>_. False)(3 := True)))
       = Inl AlreadyFinalized
   \<and> (createdAt (articles (ex_news (ex_article 1 0 UnderReview False) ((\<lambda>_. False)(3 := True))) 7) \<noteq> 0
      \<and> \<not> finalized (articles (ex_news (ex_article 1 0 UnderReview False) ((\<lambda>_. False)(3 := True))) 7)
      \<and> hasVoted (ex_news (ex_article 1 0 UnderReview False) ((\<lambda>_. False)(3 := True))) 7
           (msg_sender (at 3 120)))
   \<and> vote (at 3 120) 7 False (ex_news (ex_article 1 0 UnderReview False) ((\<lambda>_. False)(3 := True)))
       = Inl DuplicateVote
   \<and> vote (at 3 110) 7 True (ex_news (ex_article 0 0 UnderReview False) (\<lambda>_. False))
       = Inr ([Voted 7 3 True],
              ex_news (ex_article 1 0 UnderReview False) ((\<lambda>_. False)(3 := True)))
   \<and> hasVoted (ex_news (ex_article 1 0 UnderReview False) ((\<lambda>_. False)(3 := True))) 7
        (msg_sender (at 3 110))
   \<and> unat (yesVotes (articles
        (ex_news (ex_article 1 0 UnderReview False) ((\<lambda>_. False)(3 := True))) 7))
       = unat (yesVotes (articles (ex_news (ex_article 0 0 UnderReview False) (\<lambda>_. False)) 7)) + 1
   \<and> exec (at 3 110) (Vote 8 True) ex_genesis = Inl NotFound
   \<and> step (at 3 110, Vote 8 True) ex_genesis = ex_genesis
   \<and> (exec (at 3 110) (Vote 7 True) (ex_with ex_genesis (ex_article 0 0 UnderReview False))
        = Inr (RetUnit, [Voted 7 3 True],
               (ex_with ex_genesis (ex_article 1 0 UnderReview False))
                 \<lparr>news := (news (ex_with ex_genesis (ex_article 1 0 UnderReview False)))
                    \<lparr>hasVoted := (\<lambda>_ _. False)(7 := (\<lambda>_. False)(3 := True))\<rparr>\<rparr>)
      \<and> msg_sender (at 3 170) = msg_sender (at 3 110))
   \<and> (exec (at 3 170) (Vote 7 False)
         (run ((ex_with ex_genesis (ex_article 1 0 UnderReview False))
                 \<lparr>news := (news (ex_with ex_genesis (ex_article 1 0 UnderReview False)))
                    \<lparr>hasVoted := (\<lambda>_ _. False)(7 := (\<lambda>_. False)(3 := True))\<rparr>\<rparr>)
              [(at 4 161, Vote 7 False)]) = Inl AlreadyFinalized
      \<or> exec (at 3 170) (Vote 7 False)
         (run ((ex_with ex_genesis (ex_article 1 0 UnderReview False))
                 \<lparr>news := (news (ex_with ex_genesis (ex_article 1 0 UnderReview False)))
                    \<lparr>hasVoted := (\<lambda>_ _. False)(7 := (\<lambda>_. False)(3 := True))\<rparr>\<rparr>)
              [(at 4 161, Vote 7 False)]) = Inl DuplicateVote)"
proof -
  let ?closed = "ex_news (ex_article 1 0 VerifiedTrue True) ((\<lambda>_. False)(3 := True))"
  let ?voted = "ex_news (ex_article 1 0 UnderReview False) ((\<lambda>_. False)(3 := True))"
  let ?open = "ex_news (ex_article 0 0 UnderReview False) (\<lambda>_. False)"
  let ?w1 = "(ex_with ex_genesis (ex_article 1 0 UnderReview False))
                 \<lparr>news := (news (ex_with ex_genesis (ex_article 1 0 UnderReview False)))
                    \<lparr>hasVoted := (\<lambda>_ _. False)(7 := (\<lambda>_. False)(3 := True))\<rparr>\<rparr>"
  have h1: "createdAt (articles (news ex_genesis) 8) = 0"
    by (simp add: gen_defs ex_defs)
  have c1: "vote (at 3 110) 8 True (news ex_genesis) = Inl NotFound"
    using vote_at_most_once [where n = "news ex_genesis" and h = 8 and e = "at 3 110"
        and s = True] h1 by blast
  have h2: "createdAt (articles ?closed 7) \<noteq> 0 \<and> finalized (articles ?closed 7)"
    by (simp add: ex_defs)
  have c2: "vote (at 4 170) 7 True ?closed = Inl AlreadyFinalized"
    using vote_at_most_once [where n = ?closed and h = 7 and e = "at 4 170" and s = True] h2
    by blast
  have h3: "createdAt (articles ?voted 7) \<noteq> 0 \<and> \<not> finalized (articles ?voted 7)
      \<and> hasVoted ?voted 7 (msg_sender (at 3 120))"
    by (simp add: ex_defs)
  have c3: "vote (at 3 120) 7 False ?voted = Inl DuplicateVote"
    using vote_at_most_once [where n = ?voted and h = 7 and e = "at 3 120" and s = False] h3
    by blast
  have h4: "vote (at 3 110) 7 True ?open = Inr ([Voted 7 3 True], ?voted)"
    by (simp add: ex_defs call_defs)
  have c4: "hasVoted ?voted 7 (msg_sender (at 3 110))
      \<and> unat (yesVotes (articles ?voted 7)) = unat (yesVotes (articles ?open 7)) + 1"
    using vote_at_most_once [where n = ?open and h = 7 and e = "at 3 110" and s = True
        and evs = "[Voted 7 3 True]" and n' = ?voted] h4
    by (simp add: ex_defs)
  have h5: "exec (at 3 110) (Vote 8 True) ex_genesis = Inl NotFound"
    by (simp add: gen_defs ex_defs call_defs ledger_defs)
  have c5: "step (at 3 110, Vote 8 True) ex_genesis = ex_genesis"
    using vote_at_most_once [where w = ex_genesis and h = 8 and e = "at 3 110" and s = True
        and x = NotFound] h5
    by blast
  have h6: "exec (at 3 110) (Vote 7 True) (ex_with ex_genesis (ex_article 0 0 UnderReview False))
        = Inr (RetUnit, [Voted 7 3 True], ?w1) \<and> msg_sender (at 3 170) = msg_sender (at 3 110)"
    by (simp add: gen_defs ex_defs call_defs ledger_defs)
  have c6: "exec (at 3 170) (Vote 7 False) (run ?w1 [(at 4 161, Vote 7 False)])
        = Inl AlreadyFinalized
      \<or> exec (at 3 170) (Vote 7 False) (run ?w1 [(at 4 161, Vote 7 False)]) = Inl DuplicateVote"
    using vote_at_most_once [where w = "ex_with ex_genesis (ex_article 0 0 UnderReview False)"
        and h = 7 and e = "at 3 110" and s = True and r = RetUnit and evs' = "[Voted 7 3 True]"
        and ?w1.0 = ?w1 and e' = "at 3 170" and s' = False and ts = "[(at 4 161, Vote 7 False)]"]
      h6
    by blast
  from c4 have c4a: "hasVoted ?voted 7 (msg_sender (at 3 110))"
    and c4b: "unat (yesVotes (articles ?voted 7)) = unat (yesVotes (articles ?open 7)) + 1"
    by simp_all
  show ?thesis by (intro conjI h1 c1 h2 c2 h3 c3 h4 c4a c4b h5 c5 h6 c6)
qed

text \<open>
  C5 as stated does not hold: a vote record alone does not make \<open>vote\<close> fail with
  \<open>DuplicateVote\<close>. With the deployment script's parameters, address 3 votes at
  \<open>createdAt + 61\<close> and thereby finalizes the article; its second attempt is rejected with
  \<open>AlreadyFinalized\<close>, because that check comes first.
\<close>

theorem duplicate_vote_after_close_counterexample:
  "hasVoted (news (run ex_genesis
       [(at 2 100, SubmitArticle 7 ''u'' 0), (at 3 161, Vote 7 True)])) 7 (msg_sender (at 3 170))
   \<and> vote (at 3 170) 7 True (news (run ex_genesis
       [(at 2 100, SubmitArticle 7 ''u'' 0), (at 3 161, Vote 7 True)])) = Inl AlreadyFinalized
   \<and> vote (at 3 170) 7 True (news (run ex_genesis
       [(at 2 100, SubmitArticle 7 ''u'' 0), (at 3 161, Vote 7 True)])) \<noteq> Inl DuplicateVote"
  by (simp add: gen_defs ex_defs call_defs ledger_defs)

section \<open>Submission\<close>

text \<open>
  C3. In every world reached from deployment, submitting a fingerprint that has no record
  with a claimed publisher that is not the null address and is trusted by the registry
  succeeds and leaves the article finalized with status \<open>VerifiedTrue\<close>, both counters
  zero, and no vote record, for this fingerprint or any other, created. Every successful
  submission emits either the pair \<open>PublisherAutoVerified\<close>, \<open>Finalized\<close> or the single
  \<open>Submitted\<close>, the former exactly on the trusted path, and never touches the vote
  records.
\<close>

theorem submit_trusted_auto_verified:
  "(createdAt (articles (news (run (deploy ep en vp mv) ts)) h) = 0 \<and> p \<noteq> 0 \<and>
      isTrusted (pub (run (deploy ep en vp mv) ts)) p \<longrightarrow>
      (\<exists>n'. submitArticle e h u p (pub (run (deploy ep en vp mv) ts))
                (news (run (deploy ep en vp mv) ts))
              = Inr ([PublisherAutoVerified h, Finalized h VerifiedTrue], n')
        \<and> finalized (articles n' h) \<and> status (articles n' h) = VerifiedTrue
        \<and> yesVotes (articles n' h) = 0 \<and> noVotes (articles n' h) = 0
        \<and> hasVoted n' = hasVoted (news (run (deploy ep en vp mv) ts))
        \<and> (\<forall>v. \<not> hasVoted n' h v)))
   \<and> (submitArticle e h u p reg n = Inr (evs, n1) \<longrightarrow>
        (if p \<noteq> 0 \<and> isTrusted reg p
         then evs = [PublisherAutoVerified h, Finalized h VerifiedTrue]
         else evs = [Submitted h (msg_sender e) u])
        \<and> hasVoted n1 = hasVoted n)"
proof (intro conjI impI)
  assume a: "createdAt (articles (news (run (deploy ep en vp mv) ts)) h) = 0 \<and> p \<noteq> 0 \<and>
      isTrusted (pub (run (deploy ep en vp mv) ts)) p"
  let ?w = "run (deploy ep en vp mv) ts"
  from a reachable_untouched [of ep en vp mv ts h]
  have z: "yesVotes (articles (news ?w) h) = 0" "noVotes (articles (news ?w) h) = 0"
    "hasVoted (news ?w) h = (\<lambda>_. False)" by simp_all
  let ?n' = "(news ?w)\<lparr>articles := (articles (news ?w))(h := (articles (news ?w) h)\<lparr>contentHash := h,
       uri := u, publisher := p, submitter := msg_sender e, createdAt := block_timestamp e,
       status := VerifiedTrue, finalized := True\<rparr>)\<rparr>"
  have "submitArticle e h u p (pub ?w) (news ?w)
      = Inr ([PublisherAutoVerified h, Finalized h VerifiedTrue], ?n')"
    using a by (simp add: submit_Inr)
  moreover have "finalized (articles ?n' h) \<and> status (articles ?n' h) = VerifiedTrue
        \<and> yesVotes (articles ?n' h) = 0 \<and> noVotes (articles ?n' h) = 0
        \<and> hasVoted ?n' = hasVoted (news ?w) \<and> (\<forall>v. \<not> hasVoted ?n' h v)"
    using z by simp
  ultimately show "\<exists>n'. submitArticle e h u p (pub ?w) (news ?w)
              = Inr ([PublisherAutoVerified h, Finalized h VerifiedTrue], n')
        \<and> finalized (articles n' h) \<and> status (articles n' h) = VerifiedTrue
        \<and> yesVotes (articles n' h) = 0 \<and> noVotes (articles n' h) = 0
        \<and> hasVoted n' = hasVoted (news ?w)
        \<and> (\<forall>v. \<not> hasVoted n' h v)" by blast
next
  assume "submitArticle e h u p reg n = Inr (evs, n1)"
  then show "if p \<noteq> 0 \<and> isTrusted reg p
         then evs = [PublisherAutoVerified h, Finalized h VerifiedTrue]
         else evs = [Submitted h (msg_sender e) u]"
    by (simp add: submit_Inr split: if_splits)
next
  assume "submitArticle e h u p reg n = Inr (evs, n1)"
  then show "hasVoted n1 = hasVoted n"
    by (auto simp add: submit_Inr split: if_splits)
qed

theorem submit_trusted_auto_verified_witness:
  "createdAt (articles (news (run (deploy (at 1 10) (at 1 20) 60 1) [(at 1 50, AddPublisher 5)])) 7) = 0
   \<and> (5 :: address) \<noteq> 0
   \<and> isTrusted (pub (run (deploy (at 1 10) (at 1 20) 60 1) [(at 1 50, AddPublisher 5)])) 5
   \<and> submitArticle (at 2 100) 7 ''u'' 5
        (pub (run (deploy (at 1 10) (at 1 20) 60 1) [(at 1 50, AddPublisher 5)]))
        (news (run (deploy (at 1 10) (at 1 20) 60 1) [(at 1 50, AddPublisher 5)]))
      = Inr ([PublisherAutoVerified 7, Finalized 7 VerifiedTrue],
             news (ex_with ex_genesis ((ex_article 0 0 VerifiedTrue True)\<lparr>publisher := 5\<rparr>)))
   \<and> finalized (articles
        (news (ex_with ex_genesis ((ex_article 0 0 VerifiedTrue True)\<lparr>publisher := 5\<rparr>))) 7)
   \<and> hasVoted (news (ex_with ex_genesis ((ex_article 0 0 VerifiedTrue True)\<lparr>publisher := 5\<rparr>)))
      = hasVoted (news (run (deploy (at 1 10) (at 1 20) 60 1) [(at 1 50, AddPublisher 5)]))
   \<and> submitArticle (at 2 100) 7 ''u'' 0 ex_pub (news ex_genesis)
      = Inr ([Submitted 7 2 ''u''], news (ex_with ex_genesis (ex_article 0 0 UnderReview False)))"
proof -
  let ?w = "run (deploy (at 1 10) (at 1 20) 60 1) [(at 1 50, AddPublisher 5)]"
  let ?n1 = "news (ex_with ex_genesis ((ex_article 0 0 VerifiedTrue True)\<lparr>publisher := 5\<rparr>))"
  let ?n2 = "news (ex_with ex_genesis (ex_article 0 0 UnderReview False))"
  have h1: "createdAt (articles (news ?w) 7) = 0"
    by (simp add: gen_defs ex_defs call_defs ledger_defs)
  have h2: "(5 :: address) \<noteq> 0" by simp
  have h3: "isTrusted (pub ?w) 5"
    by (simp add: gen_defs ex_defs call_defs ledger_defs)
  have s: "submitArticle (at 2 100) 7 ''u'' 5 (pub ?w) (news ?w)
      = Inr ([PublisherAutoVerified 7, Finalized 7 VerifiedTrue], ?n1)"
    by (simp add: gen_defs ex_defs call_defs ledger_defs)
  have s2: "submitArticle (at 2 100) 7 ''u'' 0 ex_pub (news ex_genesis)
      = Inr ([Submitted 7 2 ''u''], ?n2)"
    by (simp add: gen_defs ex_defs call_defs ledger_defs)
  from submit_trusted_auto_verified [of "at 1 10" "at 1 20" 60 1 "[(at 1 50, AddPublisher 5)]" 7 5
      "at 2 100" "''u''" "pub ?w" "news ?w" "[PublisherAutoVerified 7, Finalized 7 VerifiedTrue]" ?n1]
    h1 h2 h3 s
  have c: "finalized (articles ?n1 7) \<and> hasVoted ?n1 = hasVoted (news ?w)"
    by auto
  from c have c1: "finalized (articles ?n1 7)" and c2: "hasVoted ?n1 = hasVoted (news ?w)"
    by simp_all
  show ?thesis by (intro conjI h1 h2 h3 s c1 c2 s2)
qed

text \<open>
  C4. After a successful submission of a fingerprint, made at a positive ledger time,
  and whatever transactions follow, every further submission of that fingerprint by any
  caller fails with \<open>DuplicateSubmission\<close> and changes nothing; the record, as
  \<open>getArticle\<close> returns it, still carries the first submitter and the first \<open>createdAt\<close>.
\<close>

theorem resubmission_rejected:
  assumes "exec e (SubmitArticle h u p) w = Inr (r, evs, w1)" and "block_timestamp e \<noteq> 0"
  shows "submitArticle e' h u' p' (pub (run w1 ts)) (news (run w1 ts)) = Inl DuplicateSubmission
    \<and> exec e' (SubmitArticle h u' p') (run w1 ts) = Inl DuplicateSubmission
    \<and> step (e', SubmitArticle h u' p') (run w1 ts) = run w1 ts
    \<and> submitter (articles (news (run w1 ts)) h) = msg_sender e
    \<and> createdAt (articles (news (run w1 ts)) h) = block_timestamp e
    \<and> fst (snd (snd (snd (getArticle h (news (run w1 ts)))))) = msg_sender e
    \<and> fst (snd (snd (snd (snd (getArticle h (news (run w1 ts))))))) = block_timestamp e"
proof -
  from assms(1) obtain n1 where s: "submitArticle e h u p (pub w) (news w) = Inr (evs, n1)"
    and w1: "w1 = w\<lparr>news := n1\<rparr>"
    by (auto simp: in_news_Inr)
  from s assms(2) w1 have c: "createdAt (articles (news w1) h) = block_timestamp e"
    "submitter (articles (news w1) h) = msg_sender e" "createdAt (articles (news w1) h) \<noteq> 0"
    by (auto simp: submit_Inr split: if_splits)
  from run_created [OF c(3), of ts] c
  have k: "createdAt (articles (news (run w1 ts)) h) = block_timestamp e"
    "submitter (articles (news (run w1 ts)) h) = msg_sender e" by simp_all
  with assms(2) have nz: "createdAt (articles (news (run w1 ts)) h) \<noteq> 0" by simp
  have f: "submitArticle e' h u' p' (pub (run w1 ts)) (news (run w1 ts)) = Inl DuplicateSubmission"
    by (rule submit_Inl [OF nz])
  then have x: "exec e' (SubmitArticle h u' p') (run w1 ts) = Inl DuplicateSubmission"
    by (simp add: in_news_Inl)
  from f x exec_Inl_step [OF x] k show ?thesis
    by (simp add: getArticle_def Let_def)
qed

theorem resubmission_rejected_witness:
  "exec (at 2 100) (SubmitArticle 7 ''u'' 0) ex_genesis
     = Inr (RetUnit, [Submitted 7 2 ''u''], ex_with ex_genesis (ex_article 0 0 UnderReview False))
   \<and> block_timestamp (at 2 100) \<noteq> 0
   \<and> exec (at 9 500) (SubmitArticle 7 ''v'' 5)
        (run (ex_with ex_genesis (ex_article 0 0 UnderReview False))
           [(at 3 110, Vote 7 True), (at 1 120, AddPublisher 5)])
     = Inl DuplicateSubmission
   \<and> submitter (articles (news
        (run (ex_with ex_genesis (ex_article 0 0 UnderReview False))
           [(at 3 110, Vote 7 True), (at 1 120, AddPublisher 5)])) 7) = msg_sender (at 2 100)
   \<and> createdAt (articles (news
        (run (ex_with ex_genesis (ex_article 0 0 UnderReview False))
           [(at 3 110, Vote 7 True), (at 1 120, AddPublisher 5)])) 7) = block_timestamp (at 2 100)"
proof -
  have a: "exec (at 2 100) (SubmitArticle 7 ''u'' 0) ex_genesis
     = Inr (RetUnit, [Submitted 7 2 ''u''], ex_with ex_genesis (ex_article 0 0 UnderReview False))"
    by (simp add: gen_defs ex_defs call_defs ledger_defs)
  have b: "block_timestamp (at 2 100) \<noteq> 0" by (simp add: at_def)
  note r = resubmission_rejected [OF a b, of "at 9 500" "''v''" 5
      "[(at 3 110, Vote 7 True), (at 1 120, AddPublisher 5)]"]
  from r have c1: "exec (at 9 500) (SubmitArticle 7 ''v'' 5)
        (run (ex_with ex_genesis (ex_article 0 0 UnderReview False))
           [(at 3 110, Vote 7 True), (at 1 120, AddPublisher 5)])
     = Inl DuplicateSubmission" by blast
  from r have c2: "submitter (articles (news
        (run (ex_with ex_genesis (ex_article 0 0 UnderReview False))
           [(at 3 110, Vote 7 True), (at 1 120, AddPublisher 5)])) 7) = msg_sender (at 2 100)"
    by blast
  from r have c3: "createdAt (articles (news
        (run (ex_with ex_genesis (ex_article 0 0 UnderReview False))
           [(at 3 110, Vote 7 True), (at 1 120, AddPublisher 5)])) 7) = block_timestamp (at 2 100)"
    by blast
  show ?thesis by (intro conjI a b c1 c2 c3)
qed

section \<open>Finalization\<close>

text \<open>
  C6. The \<open>finalized\<close> flag, once true, stays true under every transaction. In a world
  reached from deployment under a positive ledger clock, a finalized article keeps its
  status under every further history of transactions, and every vote on it fails with
  \<open>AlreadyFinalized\<close>.
\<close>

theorem finalization_monotonic:
  "(finalized (articles (news w) h) \<longrightarrow> finalized (articles (news (run w ts)) h))
   \<and> (clock_ok ts0 \<and> finalized (articles (news (run (deploy ep en vp mv) ts0)) h) \<longrightarrow>
        finalized (articles (news (run (run (deploy ep en vp mv) ts0) ts)) h)
        \<and> status (articles (news (run (run (deploy ep en vp mv) ts0) ts)) h)
            = status (articles (news (run (deploy ep en vp mv) ts0)) h)
        \<and> vote e h s (news (run (run (deploy ep en vp mv) ts0) ts)) = Inl AlreadyFinalized
        \<and> exec e (Vote h s) (run (run (deploy ep en vp mv) ts0) ts) = Inl AlreadyFinalized)"
proof (intro conjI impI)
  assume "finalized (articles (news w) h)"
  then show "finalized (articles (news (run w ts)) h)" by (rule run_finalized)
next
  assume a: "clock_ok ts0 \<and> finalized (articles (news (run (deploy ep en vp mv) ts0)) h)"
  let ?w = "run (deploy ep en vp mv) ts0"
  from a have f: "finalized (articles (news ?w) h)" by simp
  from a reachable_finalized_created [of ts0 ep en vp mv h]
  have c: "createdAt (articles (news ?w) h) \<noteq> 0" by simp
  from run_frozen [OF f c, of ts]
  have k: "articles (news (run ?w ts)) h = articles (news ?w) h" by simp
  from k f show "finalized (articles (news (run ?w ts)) h)" by simp
  from k show "status (articles (news (run ?w ts)) h) = status (articles (news ?w) h)" by simp
  from k f c show v: "vote e h s (news (run ?w ts)) = Inl AlreadyFinalized"
    by (simp add: vote_AlreadyFinalized)
  from v show "exec e (Vote h s) (run ?w ts) = Inl AlreadyFinalized"
    by (simp add: in_news_Inl)
qed

theorem finalization_monotonic_witness:
  "clock_ok [(at 2 100, SubmitArticle 7 ''u'' 0), (at 3 161, Vote 7 True)]
   \<and> finalized (articles (news (run (deploy (at 1 10) (at 1 20) 60 1)
        [(at 2 100, SubmitArticle 7 ''u'' 0), (at 3 161, Vote 7 True)])) 7)
   \<and> status (articles (news (run (deploy (at 1 10) (at 1 20) 60 1)
        [(at 2 100, SubmitArticle 7 ''u'' 0), (at 3 161, Vote 7 True)])) 7) = VerifiedTrue
   \<and> finalized (articles (news (run (run (deploy (at 1 10) (at 1 20) 60 1)
        [(at 2 100, SubmitArticle 7 ''u'' 0), (at 3 161, Vote 7 True)])
        [(at 9 300, SubmitArticle 7 ''x'' 5), (at 4 400, Vote 7 False)])) 7)
   \<and> status (articles (news (run (run (deploy (at 1 10) (at 1 20) 60 1)
        [(at 2 100, SubmitArticle 7 ''u'' 0), (at 3 161, Vote 7 True)])
        [(at 9 300, SubmitArticle 7 ''x'' 5), (at 4 400, Vote 7 False)])) 7) = VerifiedTrue
   \<and> vote (at 5 500) 7 False (news (run (run (deploy (at 1 10) (at 1 20) 60 1)
        [(at 2 100, SubmitArticle 7 ''u'' 0), (at 3 161, Vote 7 True)])
        [(at 9 300, SubmitArticle 7 ''x'' 5), (at 4 400, Vote 7 False)])) = Inl AlreadyFinalized"
proof -
  let ?hist = "[(at 2 100, SubmitArticle 7 ''u'' 0), (at 3 161, Vote 7 True)]"
  let ?more = "[(at 9 300, SubmitArticle 7 ''x'' 5), (at 4 400, Vote 7 False)]"
  let ?w = "run (deploy (at 1 10) (at 1 20) 60 1) ?hist"
  have h1: "clock_ok ?hist" by (simp add: clock_ok_def at_def)
  have h2: "finalized (articles (news ?w) 7)"
    by (simp add: gen_defs ex_defs call_defs ledger_defs)
  have h3: "status (articles (news ?w) 7) = VerifiedTrue"
    by (simp add: gen_defs ex_defs call_defs ledger_defs)
  note m = finalization_monotonic [of ?w 7 ?more ?hist "at 1 10" "at 1 20" 60 1 "at 5 500" False]
  from m h1 h2 have c1: "finalized (articles (news (run ?w ?more)) 7)" by blast
  from m h1 h2 have "status (articles (news (run ?w ?more)) 7) = status (articles (news ?w) 7)"
    by blast
  with h3 have c2: "status (articles (news (run ?w ?more)) 7) = VerifiedTrue" by simp
  from m h1 h2 have c3: "vote (at 5 500) 7 False (news (run ?w ?more)) = Inl AlreadyFinalized"
    by blast
  show ?thesis by (intro conjI h1 h2 h3 c1 c2 c3)
qed

section \<open>Reading an article\<close>

text \<open>
  C9. \<open>getArticle\<close> is a view: for every caller it returns the nine fields stored under
  the fingerprint and leaves the world as it is. Where no record exists (the stored
  \<open>createdAt\<close> is 0) in a world reached from deployment under a positive ledger clock, what
  it returns is the all-zero record, whose \<open>createdAt\<close> of 0 is the not-found mark.
\<close>

theorem getArticle_pure_read:
  "exec e (GetArticle h) w = Inr (RetArticle (getArticle h (news w)), [], w)
   \<and> step (e, GetArticle h) w = w
   \<and> getArticle h n =
       (contentHash (articles n h), uri (articles n h), publisher (articles n h),
        submitter (articles n h), createdAt (articles n h), status (articles n h),
        yesVotes (articles n h), noVotes (articles n h), finalized (articles n h))
   \<and> (clock_ok ts \<and> createdAt (articles (news (run (deploy ep en vp mv) ts)) h) = 0 \<longrightarrow>
        getArticle h (news (run (deploy ep en vp mv) ts))
          = (0, [], 0, 0, 0, UnderReview, 0, 0, False))"
proof (intro conjI impI)
  assume "clock_ok ts \<and> createdAt (articles (news (run (deploy ep en vp mv) ts)) h) = 0"
  with reachable_blank [of ts ep en vp mv h]
  have "articles (news (run (deploy ep en vp mv) ts)) h = zero_Article" by simp
  then show "getArticle h (news (run (deploy ep en vp mv) ts))
          = (0, [], 0, 0, 0, UnderReview, 0, 0, False)"
    by (simp add: getArticle_def zero_Article_def)
qed (simp_all add: step_def getArticle_def Let_def)

theorem getArticle_pure_read_witness:
  "clock_ok [(at 2 100, SubmitArticle 7 ''u'' 0)]
   \<and> createdAt (articles (news (run (deploy (at 1 10) (at 1 20) 60 1)
        [(at 2 100, SubmitArticle 7 ''u'' 0)])) 8) = 0
   \<and> getArticle 8 (news (run (deploy (at 1 10) (at 1 20) 60 1)
        [(at 2 100, SubmitArticle 7 ''u'' 0)])) = (0, [], 0, 0, 0, UnderReview, 0, 0, False)
   \<and> getArticle 7 (news (run (deploy (at 1 10) (at 1 20) 60 1)
        [(at 2 100, SubmitArticle 7 ''u'' 0)])) = (7, ''u'', 0, 2, 100, UnderReview, 0, 0, False)
   \<and> step (at 9 200, GetArticle 7) (run (deploy (at 1 10) (at 1 20) 60 1)
        [(at 2 100, SubmitArticle 7 ''u'' 0)])
      = run (deploy (at 1 10) (at 1 20) 60 1) [(at 2 100, SubmitArticle 7 ''u'' 0)]"
proof -
  let ?more = "[(at 2 100, SubmitArticle 7 ''u'' 0)]"
  let ?w = "run (deploy (at 1 10) (at 1 20) 60 1) ?more"
  have h1: "clock_ok ?more" by (simp add: clock_ok_def at_def)
  have h2: "createdAt (articles (news ?w) 8) = 0"
    by (simp add: gen_defs ex_defs call_defs ledger_defs)
  note g = getArticle_pure_read [of "at 9 200" _ ?w _ ?more "at 1 10" "at 1 20" 60 1]
  from g [of 8 "news ?w"] h1 h2
  have c1: "getArticle 8 (news ?w) = (0, [], 0, 0, 0, UnderReview, 0, 0, False)" by blast
  have c2: "getArticle 7 (news ?w) = (7, ''u'', 0, 2, 100, UnderReview, 0, 0, False)"
    by (simp add: gen_defs ex_defs call_defs ledger_defs)
  from g [of 7 "news ?w"] have c3: "step (at 9 200, GetArticle 7) ?w = ?w" by blast
  show ?thesis by (intro conjI h1 h2 c1 c2 c3)
qed

section \<open>Counters and vote records\<close>

text \<open>
  C10. In every world reached from deployment, for every fingerprint, \<open>yesVotes + noVotes\<close>
  is the number of addresses with a vote record for it. An article that a submission
  auto-verified keeps both counters at zero and has no voter under every history of
  transactions that follows.
\<close>

theorem votes_match_voters:
  "unat (yesVotes (articles (news (run (deploy ep en vp mv) ts)) h))
     + unat (noVotes (articles (news (run (deploy ep en vp mv) ts)) h))
     = card {v. hasVoted (news (run (deploy ep en vp mv) ts)) h v}
   \<and> (exec e (SubmitArticle h u p) (run (deploy ep en vp mv) ts) = Inr (r, evs, w1) \<and>
      PublisherAutoVerified h \<in> set evs \<longrightarrow>
        yesVotes (articles (news (run w1 ts')) h) = 0
        \<and> noVotes (articles (news (run w1 ts')) h) = 0
        \<and> {v. hasVoted (news (run w1 ts')) h v} = {})"
proof (intro conjI impI)
  show "unat (yesVotes (articles (news (run (deploy ep en vp mv) ts)) h))
     + unat (noVotes (articles (news (run (deploy ep en vp mv) ts)) h))
     = card {v. hasVoted (news (run (deploy ep en vp mv) ts)) h v}"
    by (rule reachable_count)
next
  let ?w = "run (deploy ep en vp mv) ts"
  assume a: "exec e (SubmitArticle h u p) ?w = Inr (r, evs, w1) \<and>
      PublisherAutoVerified h \<in> set evs"
  then obtain n1 where s: "submitArticle e h u p (pub ?w) (news ?w) = Inr (evs, n1)"
    and w1: "w1 = ?w\<lparr>news := n1\<rparr>"
    by (auto simp: in_news_Inr)
  from s have c: "createdAt (articles (news ?w) h) = 0" by (simp add: submit_Inr)
  from reachable_untouched [OF c]
  have z: "yesVotes (articles (news ?w) h) = 0" "noVotes (articles (news ?w) h) = 0"
    "hasVoted (news ?w) h = (\<lambda>_. False)" by simp_all
  from s a w1 z have k: "finalized (articles (news w1) h)"
    "yesVotes (articles (news w1) h) = 0" "noVotes (articles (news w1) h) = 0"
    "hasVoted (news w1) h = (\<lambda>_. False)"
    by (auto simp: submit_Inr split: if_splits)
  from run_closed_votes [OF k(1), of ts'] k
  show "yesVotes (articles (news (run w1 ts')) h) = 0"
    "noVotes (articles (news (run w1 ts')) h) = 0"
    "{v. hasVoted (news (run w1 ts')) h v} = {}" by simp_all
qed

theorem votes_match_voters_witness:
  "exec (at 2 100) (SubmitArticle 7 ''u'' 5)
       (run (deploy (at 1 10) (at 1 20) 60 1) [(at 1 50, AddPublisher 5)])
     = Inr (RetUnit, [PublisherAutoVerified 7, Finalized 7 VerifiedTrue],
            ex_with (run ex_genesis [(at 1 50, AddPublisher 5)])
              ((ex_article 0 0 VerifiedTrue True)\<lparr>publisher := 5\<rparr>))
   \<and> PublisherAutoVerified 7 \<in> set [PublisherAutoVerified 7, Finalized 7 VerifiedTrue]
   \<and> yesVotes (articles (news (run
        (ex_with (run ex_genesis [(at 1 50, AddPublisher 5)])
              ((ex_article 0 0 VerifiedTrue True)\<lparr>publisher := 5\<rparr>))
        [(at 3 110, Vote 7 True), (at 4 400, Vote 7 False)])) 7) = 0
   \<and> noVotes (articles (news (run
        (ex_with (run ex_genesis [(at 1 50, AddPublisher 5)])
              ((ex_article 0 0 VerifiedTrue True)\<lparr>publisher := 5\<rparr>))
        [(at 3 110, Vote 7 True), (at 4 400, Vote 7 False)])) 7) = 0
   \<and> {v. hasVoted (news (run
        (ex_with (run ex_genesis [(at 1 50, AddPublisher 5)])
              ((ex_article 0 0 VerifiedTrue True)\<lparr>publisher := 5\<rparr>))
        [(at 3 110, Vote 7 True), (at 4 400, Vote 7 False)])) 7 v} = {}
   \<and> unat (yesVotes (articles (news (run (deploy (at 1 10) (at 1 20) 60 1)
        [(at 2 100, SubmitArticle 7 ''u'' 0), (at 3 161, Vote 7 True)])) 7))
      + unat (noVotes (articles (news (run (deploy (at 1 10) (at 1 20) 60 1)
        [(at 2 100, SubmitArticle 7 ''u'' 0), (at 3 161, Vote 7 True)])) 7))
      = card {v. hasVoted (news (run (deploy (at 1 10) (at 1 20) 60 1)
        [(at 2 100, SubmitArticle 7 ''u'' 0), (at 3 161, Vote 7 True)])) 7 v}"
proof -
  let ?w1 = "ex_with (run ex_genesis [(at 1 50, AddPublisher 5)])
              ((ex_article 0 0 VerifiedTrue True)\<lparr>publisher := 5\<rparr>)"
  let ?ts' = "[(at 3 110, Vote 7 True), (at 4 400, Vote 7 False)]"
  have h1: "exec (at 2 100) (SubmitArticle 7 ''u'' 5)
       (run (deploy (at 1 10) (at 1 20) 60 1) [(at 1 50, AddPublisher 5)])
     = Inr (RetUnit, [PublisherAutoVerified 7, Finalized 7 VerifiedTrue], ?w1)"
    by (simp add: gen_defs ex_defs call_defs ledger_defs)
  have h2: "PublisherAutoVerified 7 \<in> set [PublisherAutoVerified 7, Finalized 7 VerifiedTrue]"
    by simp
  note v = votes_match_voters [of "at 1 10" "at 1 20" 60 1 _ 7]
  note v1 = v [of "[(at 1 50, AddPublisher 5)]" "at 2 100" "''u''" 5 RetUnit
      "[PublisherAutoVerified 7, Finalized 7 VerifiedTrue]" ?w1 ?ts']
  from v1 h1 h2 have c1: "yesVotes (articles (news (run ?w1 ?ts')) 7) = 0" by blast
  from v1 h1 h2 have c2: "noVotes (articles (news (run ?w1 ?ts')) 7) = 0" by blast
  from v1 h1 h2 have c3: "{v. hasVoted (news (run ?w1 ?ts')) 7 v} = {}" by blast
  from v [of "[(at 2 100, SubmitArticle 7 ''u'' 0), (at 3 161, Vote 7 True)]"]
  have c4: "unat (yesVotes (articles (news (run (deploy (at 1 10) (at 1 20) 60 1)
        [(at 2 100, SubmitArticle 7 ''u'' 0), (at 3 161, Vote 7 True)])) 7))
      + unat (noVotes (articles (news (run (deploy (at 1 10) (at 1 20) 60 1)
        [(at 2 100, SubmitArticle 7 ''u'' 0), (at 3 161, Vote 7 True)])) 7))
      = card {v. hasVoted (news (run (deploy (at 1 10) (at 1 20) 60 1)
        [(at 2 100, SubmitArticle 7 ''u'' 0), (at 3 161, Vote 7 True)])) 7 v}" by blast
  show ?thesis by (intro conjI h1 h2 c1 c2 c3 c4)
qed

end
